theory Spec2Isabelle
  imports Main "HOL-Library.Sublist"
begin

section \<open>The observable field of LiveData.h\<close>

text \<open>
  \<^verbatim>\<open>LiveData<T>\<close> holds a value \<^verbatim>\<open>data_\<close>, a vector of callbacks
  (\<^verbatim>\<open>std::function<void(const T&)>\<close>) and a vector of observers
  (\<^verbatim>\<open>std::shared_ptr<IObserver<T>>\<close>). The embedding is by explicit state passing.

  \<^item> \<open>'a\<close> is the value type \<^verbatim>\<open>T\<close>. Assigning to \<^verbatim>\<open>data_\<close> replaces the value; the
    assignment operator and the constructor of \<^verbatim>\<open>T\<close> are taken not to throw.
  \<^item> \<open>'w\<close> is everything outside the container that a listener can read or write (a log,
    a counter, the fields of an observer object). A listener is a function of the value it
    is handed, of the value a read of the container gives while it runs (a listener holding
    a reference to the container can call \<^verbatim>\<open>Get()\<close>), and of that outside state. It cannot
    change the container: a listener that registers, clears or sets on the container it is
    registered on is outside this model (the range-based loops of \<^verbatim>\<open>notifyAll\<close> would then
    iterate vectors that change under them).
    A listener always comes to an end: it returns, throws or ends the program.
  \<^item> \<open>'e\<close> is the type of the exceptions listeners throw.
  \<^item> Memory exhaustion (\<^verbatim>\<open>push_back\<close> throwing \<^verbatim>\<open>std::bad_alloc\<close>) is not modelled.
\<close>

subsection \<open>How a call ends\<close>

text \<open>
  A call returns, leaves by an exception, or ends the program (\<^verbatim>\<open>std::terminate\<close>).
  In each case the state reached so far is kept: effects that happened before a throw
  are not undone.
\<close>

datatype ('e, 's) outcome =
    Returns (state_of: 's)
  | Throws 'e (state_of: 's)
  | Terminates (state_of: 's)

text \<open>Two calls in sequence, made by a caller that catches nothing.\<close>

fun then_do :: "('e, 's) outcome \<Rightarrow> ('s \<Rightarrow> ('e, 's) outcome) \<Rightarrow> ('e, 's) outcome" where
  "then_do (Returns s) k = k s"
| "then_do (Throws e s) k = Throws e s"
| "then_do (Terminates s) k = Terminates s"

text \<open>
  The specifier \<^verbatim>\<open>noexcept\<close>: an exception that would leave the function calls
  \<^verbatim>\<open>std::terminate\<close> instead of reaching the caller.
\<close>

fun noexcept :: "('e, 's) outcome \<Rightarrow> ('e, 's) outcome" where
  "noexcept (Returns s) = Returns s"
| "noexcept (Throws e s) = Terminates s"
| "noexcept (Terminates s) = Terminates s"

subsection \<open>Listeners\<close>

text \<open>
  Calling an empty \<^verbatim>\<open>std::function\<close> throws \<^verbatim>\<open>std::bad_function_call\<close>; every other
  exception comes from the listener's own code.
\<close>

datatype 'e exn = bad_function_call | Thrown 'e

text \<open>
  A listener \<open>f\<close> is run as \<open>f d h w\<close>: \<open>d\<close> is its argument (the \<^verbatim>\<open>const T&\<close>), \<open>h\<close> is
  the value the container holds while the listener runs, and \<open>w\<close> is the outside state.
\<close>

type_synonym ('a, 'w, 'e) listener = "'a \<Rightarrow> 'a \<Rightarrow> 'w \<Rightarrow> ('e exn, 'w) outcome"

text \<open>
  \<^verbatim>\<open>using OnChangedCallback = std::function<void(const T&)>\<close>; \<open>None\<close> is the empty
  \<^verbatim>\<open>std::function\<close>.
\<close>

type_synonym ('a, 'w, 'e) OnChangedCallback = "('a, 'w, 'e) listener option"

text \<open>
  \<^verbatim>\<open>class IObserver\<close> with its one virtual method \<^verbatim>\<open>Observe(const T&)\<close>. A
  \<^verbatim>\<open>std::shared_ptr<IObserver<T>>\<close> is an \<open>IObserver option\<close>, \<open>None\<close> the null pointer.
\<close>

datatype ('a, 'w, 'e) IObserver = IObserver (Observe: "('a, 'w, 'e) listener")

subsection \<open>The container and the state it runs in\<close>

text \<open>
  The three members, in the order of the class. The member \<^verbatim>\<open>data_\<close> is the field \<open>data\<close>
  (a name cannot end in an underscore here).
\<close>

record ('a, 'w, 'e) LiveData =
  callbacks :: "('a, 'w, 'e) OnChangedCallback list"
  observers :: "('a, 'w, 'e) IObserver option list"
  data :: 'a

text \<open>
  The record of an execution: \<open>world\<close> is the outside state the listeners act on, and
  \<open>calls\<close> is a history of the listener invocations made so far, in order: which slot of
  which vector was called, and with what argument. The history is written by
  \<open>notifyAll\<close> only and read by no operation; listeners cannot see it.
\<close>

datatype 'a call = CallbackCall nat 'a | ObserveCall nat 'a

record ('a, 'w) exec =
  world :: 'w
  calls :: "'a call list"

type_synonym ('a, 'w, 'e) state = "('a, 'w, 'e) LiveData \<times> ('a, 'w) exec"

text \<open>
  One invocation of a listener \<open>f\<close> by the container \<open>this\<close>, entered in the history as
  \<open>c\<close>: the call \<^verbatim>\<open>it(data_)\<close>, or \<^verbatim>\<open>it->Observe(data_)\<close>. The argument is the member
  \<^verbatim>\<open>data_\<close>, passed by reference, and the container holds that same member while the
  listener runs.
\<close>

definition invoke ::
  "'a call \<Rightarrow> ('a, 'w, 'e) listener \<Rightarrow> ('a, 'w, 'e) LiveData \<Rightarrow> ('a, 'w) exec
     \<Rightarrow> ('e exn, ('a, 'w) exec) outcome" where
  "invoke c f this ex =
     (case f (data this) (data this) (world ex) of
        Returns w \<Rightarrow> Returns \<lparr>world = w, calls = calls ex @ [c]\<rparr>
      | Throws e w \<Rightarrow> Throws e \<lparr>world = w, calls = calls ex @ [c]\<rparr>
      | Terminates w \<Rightarrow> Terminates \<lparr>world = w, calls = calls ex @ [c]\<rparr>)"

subsection \<open>The member functions\<close>

text \<open>
  \<^verbatim>\<open>template<typename ... Args> explicit LiveData(Args&&... args)
    : data_( T(std::forward<Args>(args)...)){}\<close>
  The constructor of \<^verbatim>\<open>T\<close> is the parameter \<open>T\<close>; both vectors start empty. (With
  no argument at all, overload resolution takes the defaulted \<^verbatim>\<open>LiveData() = default\<close>
  instead, which default-initialises \<^verbatim>\<open>data_\<close>; it is not modelled.)
\<close>

definition LiveData_ctor ::
  "('args \<Rightarrow> 'a) \<Rightarrow> 'args \<Rightarrow> ('a, 'w) exec \<Rightarrow> ('e exn, ('a, 'w, 'e) state) outcome" where
  "LiveData_ctor T args ex =
     Returns (\<lparr>callbacks = [], observers = [], data = T args\<rparr>, ex)"

text \<open>\<^verbatim>\<open>void addObserver(const OnChangedCallback& callback) noexcept\<close>\<close>

fun addObserver_callback ::
  "('a, 'w, 'e) OnChangedCallback \<Rightarrow> ('a, 'w, 'e) state \<Rightarrow> ('e exn, ('a, 'w, 'e) state) outcome" where
  "addObserver_callback callback (s, ex) =
     noexcept (Returns (s\<lparr>callbacks := callbacks s @ [callback]\<rparr>, ex))"

text \<open>\<^verbatim>\<open>void addObserver(std::shared_ptr<IObserver<T>> observer) noexcept\<close>\<close>

fun addObserver_observer ::
  "('a, 'w, 'e) IObserver option \<Rightarrow> ('a, 'w, 'e) state \<Rightarrow> ('e exn, ('a, 'w, 'e) state) outcome" where
  "addObserver_observer observer (s, ex) =
     noexcept (Returns (s\<lparr>observers := observers s @ [observer]\<rparr>, ex))"

text \<open>
  The first loop of \<^verbatim>\<open>notifyAll\<close>: \<^verbatim>\<open>for (const auto& it : callbacks) it(data_);\<close>
  run by the container \<open>this\<close> over the rest of the vector, \<open>i\<close> the index of its first
  element.
\<close>

fun notify_callbacks ::
  "('a, 'w, 'e) LiveData \<Rightarrow> ('a, 'w, 'e) OnChangedCallback list \<Rightarrow> nat \<Rightarrow> ('a, 'w) exec
     \<Rightarrow> ('e exn, ('a, 'w) exec) outcome" where
  "notify_callbacks this [] i ex = Returns ex"
| "notify_callbacks this (it # rest) i ex =
     (case it of
        None \<Rightarrow> Throws bad_function_call ex
      | Some f \<Rightarrow>
          then_do (invoke (CallbackCall i (data this)) f this ex)
                  (notify_callbacks this rest (Suc i)))"

text \<open>
  The second loop: \<^verbatim>\<open>for (std::shared_ptr<IObserver<T>> it : observers)
  if (it) it->Observe(data_);\<close>
\<close>

fun notify_observers ::
  "('a, 'w, 'e) LiveData \<Rightarrow> ('a, 'w, 'e) IObserver option list \<Rightarrow> nat \<Rightarrow> ('a, 'w) exec
     \<Rightarrow> ('e exn, ('a, 'w) exec) outcome" where
  "notify_observers this [] j ex = Returns ex"
| "notify_observers this (it # rest) j ex =
     (case it of
        None \<Rightarrow> notify_observers this rest (Suc j) ex
      | Some ob \<Rightarrow>
          then_do (invoke (ObserveCall j (data this)) (Observe ob) this ex)
                  (notify_observers this rest (Suc j)))"

text \<open>\<^verbatim>\<open>void notifyAll()\<close> (private, not \<^verbatim>\<open>noexcept\<close>)\<close>

definition notifyAll :: "('a, 'w, 'e) LiveData \<Rightarrow> ('a, 'w) exec \<Rightarrow> ('e exn, ('a, 'w) exec) outcome" where
  "notifyAll s ex =
     then_do (notify_callbacks s (callbacks s) 0 ex)
             (notify_observers s (observers s) 0)"

text \<open>
  \<^verbatim>\<open>template <typename U> void setValue(U&& data)
    { data_ = std::forward<U>(data); notifyAll(); }\<close> (not \<^verbatim>\<open>noexcept\<close>).
  The listeners leave the container as it is, so the container of the result is the one
  the assignment produced, whatever way the notification ends.
\<close>

fun setValue :: "'a \<Rightarrow> ('a, 'w, 'e) state \<Rightarrow> ('e exn, ('a, 'w, 'e) state) outcome" where
  "setValue d (s, ex) =
     (let s' = s\<lparr>data := d\<rparr> in
      case notifyAll s' ex of
        Returns ex' \<Rightarrow> Returns (s', ex')
      | Throws e ex' \<Rightarrow> Throws e (s', ex')
      | Terminates ex' \<Rightarrow> Terminates (s', ex'))"

text \<open>
  \<^verbatim>\<open>T& Get() noexcept { return data_; }\<close>: the value read through the returned
  reference, and the assignment \<^verbatim>\<open>x.Get() = v\<close> through it.
\<close>

fun Get :: "('a, 'w, 'e) state \<Rightarrow> ('e exn, 'a \<times> ('a, 'w, 'e) state) outcome" where
  "Get (s, ex) = noexcept (Returns (data s, (s, ex)))"

fun Get_assign :: "'a \<Rightarrow> ('a, 'w, 'e) state \<Rightarrow> ('e exn, ('a, 'w, 'e) state) outcome" where
  "Get_assign v (s, ex) = Returns (s\<lparr>data := v\<rparr>, ex)"

text \<open>\<^verbatim>\<open>void clearCallbacksAndObservers() noexcept\<close>\<close>

fun clearCallbacksAndObservers ::
  "('a, 'w, 'e) state \<Rightarrow> ('e exn, ('a, 'w, 'e) state) outcome" where
  "clearCallbacksAndObservers (s, ex) =
     noexcept (Returns (s\<lparr>callbacks := [], observers := []\<rparr>, ex))"

text \<open>\<^verbatim>\<open>template <typename U> void setValueQuietly(U&& data) noexcept\<close>\<close>

fun setValueQuietly :: "'a \<Rightarrow> ('a, 'w, 'e) state \<Rightarrow> ('e exn, ('a, 'w, 'e) state) outcome" where
  "setValueQuietly d (s, ex) = noexcept (Returns (s\<lparr>data := d\<rparr>, ex))"

text \<open>
  \<^verbatim>\<open>LiveData<T>& operator=(const T& data) noexcept { setValue(data); return *this; }\<close>
  The reference returned is the container the call was made on: the state of the result
  is the state a chained call goes on from.
\<close>

definition operator_assign ::
  "'a \<Rightarrow> ('a, 'w, 'e) state \<Rightarrow> ('e exn, ('a, 'w, 'e) state) outcome" where
  "operator_assign d st = noexcept (then_do (setValue d st) Returns)"

subsection \<open>The notification pass as the specification describes it\<close>

text \<open>
  The invocations the specification promises for one pass over a container: one per
  callback slot in insertion order, then one per non-null observer slot in insertion
  order, each with the stored value as argument.
\<close>

definition callback_pass :: "('a, 'w, 'e) OnChangedCallback list \<Rightarrow> nat \<Rightarrow> 'a \<Rightarrow> 'a call list" where
  "callback_pass cbs i d = map (\<lambda>(k, it). CallbackCall k d) (List.enumerate i cbs)"

definition observer_pass :: "('a, 'w, 'e) IObserver option list \<Rightarrow> nat \<Rightarrow> 'a \<Rightarrow> 'a call list" where
  "observer_pass obs j d =
     map (\<lambda>(k, it). ObserveCall k d) (filter (\<lambda>(k, it). it \<noteq> None) (List.enumerate j obs))"

definition notification_pass :: "('a, 'w, 'e) LiveData \<Rightarrow> 'a call list" where
  "notification_pass s = callback_pass (callbacks s) 0 (data s) @ observer_pass (observers s) 0 (data s)"

text \<open>
  What the entries of a history stand for. An entry names a slot; \<open>replay\<close> runs, entry
  by entry and in the order of the list, the listener the container \<open>s\<close> stores at the
  slot named, on the argument the entry records, with the container holding \<open>data s\<close>, and
  stops at the first listener that does not return. A callback slot holding an empty
  \<^verbatim>\<open>std::function\<close> throws; a null observer slot is passed over. (A slot beyond the end
  of its vector stores nothing.)
\<close>

definition stored_at :: "'x option list \<Rightarrow> nat \<Rightarrow> 'x option" where
  "stored_at xs i = (if i < length xs then xs ! i else None)"

fun replay ::
  "('a, 'w, 'e) LiveData \<Rightarrow> 'a call list \<Rightarrow> 'w \<Rightarrow> ('e exn, 'w) outcome" where
  "replay s [] w = Returns w"
| "replay s (CallbackCall i d # cs) w =
     (case stored_at (callbacks s) i of
        None \<Rightarrow> Throws bad_function_call w
      | Some f \<Rightarrow> then_do (f d (data s) w) (replay s cs))"
| "replay s (ObserveCall j d # cs) w =
     (case stored_at (observers s) j of
        None \<Rightarrow> replay s cs w
      | Some ob \<Rightarrow> then_do (Observe ob d (data s) w) (replay s cs))"

text \<open>
  What the caller and the world outside see of a call: the way it ended and the outside
  state it left, without the container and without the history.
\<close>

fun project :: "('s \<Rightarrow> 't) \<Rightarrow> ('e, 's) outcome \<Rightarrow> ('e, 't) outcome" where
  "project g (Returns s) = Returns (g s)"
| "project g (Throws e s) = Throws e (g s)"
| "project g (Terminates s) = Terminates (g s)"

abbreviation outside :: "('e, ('a, 'w, 'x) state) outcome \<Rightarrow> ('e, 'w) outcome" where
  "outside r \<equiv> project (\<lambda>st. world (snd st)) r"

subsection \<open>Reading the history\<close>

text \<open>The invocations of one slot: of callback slot \<open>i\<close>, of observer slot \<open>j\<close>.\<close>

fun is_callback_slot :: "nat \<Rightarrow> 'a call \<Rightarrow> bool" where
  "is_callback_slot i (CallbackCall k d) = (k = i)"
| "is_callback_slot i (ObserveCall k d) = False"

fun is_observer_slot :: "nat \<Rightarrow> 'a call \<Rightarrow> bool" where
  "is_observer_slot j (CallbackCall k d) = False"
| "is_observer_slot j (ObserveCall k d) = (k = j)"

text \<open>The slots of the callback invocations in a history, in order.\<close>

fun callback_slots :: "'a call list \<Rightarrow> nat list" where
  "callback_slots [] = []"
| "callback_slots (CallbackCall i d # cs) = i # callback_slots cs"
| "callback_slots (ObserveCall j d # cs) = callback_slots cs"

text \<open>The container a call leaves behind, whatever way the call ends.\<close>

abbreviation container_after :: "('e, ('a, 'w, 'x) state) outcome \<Rightarrow> ('a, 'w, 'x) LiveData" where
  "container_after r \<equiv> fst (state_of r)"

subsection \<open>Listeners and containers of the worked instances\<close>

text \<open>
  The value type is \<open>int\<close> and the outside state is a log, a list of integers. One
  callback appends the value it is handed and another appends ten times that value, so
  the log tells which callback ran, and in which order. The observer reads the container
  and appends the negation of the value it holds, so the log tells what the container
  held when the observer ran. The failing callback throws and leaves the log as it is.
  The sample container holds the two logging callbacks, a null observer and the observer;
  the second sample has the failing callback between two logging ones.
\<close>

abbreviation log_value :: "(int, int list, string) listener" where
  "log_value \<equiv> \<lambda>d h w. Returns (w @ [d])"

abbreviation log_tenfold :: "(int, int list, string) listener" where
  "log_tenfold \<equiv> \<lambda>d h w. Returns (w @ [10 * d])"

abbreviation log_negated :: "(int, int list, string) listener" where
  "log_negated \<equiv> \<lambda>d h w. Returns (w @ [- h])"

abbreviation failing :: "(int, int list, string) listener" where
  "failing \<equiv> \<lambda>d h w. Throws (Thrown ''boom'') w"

abbreviation sample :: "(int, int list, string) LiveData" where
  "sample \<equiv> \<lparr>callbacks = [Some log_value, Some log_tenfold],
              observers = [None, Some (IObserver log_negated)], data = 0\<rparr>"

abbreviation fresh :: "(int, int list) exec" where
  "fresh \<equiv> \<lparr>world = [], calls = []\<rparr>"

abbreviation sample_failing :: "(int, int list, string) LiveData" where
  "sample_failing \<equiv> \<lparr>callbacks = [Some log_value, Some failing, Some log_value],
              observers = [Some (IObserver log_negated)], data = 0\<rparr>"

section \<open>Properties\<close>

subsection \<open>Outcomes\<close>

lemma noexcept_Returns_iff: "noexcept r = Returns s \<longleftrightarrow> r = Returns s"
  by (cases r) simp_all

lemma then_do_Returns_iff:
  "then_do r k = Returns t \<longleftrightarrow> (\<exists>s. r = Returns s \<and> k s = Returns t)"
  by (cases r) simp_all

subsection \<open>One pass of notification\<close>

lemma invoke_calls: "calls (state_of (invoke c f this ex)) = calls ex @ [c]"
  by (simp add: invoke_def split: outcome.split)

lemma invoke_Returns_calls: "invoke c f this ex = Returns ex' \<Longrightarrow> calls ex' = calls ex @ [c]"
  using invoke_calls [of c f this ex] by simp

lemma callback_pass_Nil: "callback_pass [] i d = []"
  by (simp add: callback_pass_def)

lemma callback_pass_Cons: "callback_pass (it # rest) i d = CallbackCall i d # callback_pass rest (Suc i) d"
  by (simp add: callback_pass_def)

lemma observer_pass_Nil: "observer_pass [] j d = []"
  by (simp add: observer_pass_def)

lemma observer_pass_Cons:
  "observer_pass (it # rest) j d =
     (if it = None then observer_pass rest (Suc j) d else ObserveCall j d # observer_pass rest (Suc j) d)"
  by (simp add: observer_pass_def)

lemma notify_callbacks_Returns:
  "notify_callbacks this cbs i ex = Returns ex' \<Longrightarrow> calls ex' = calls ex @ callback_pass cbs i (data this)"
proof (induction cbs arbitrary: i ex)
  case Nil
  then show ?case by (simp add: callback_pass_Nil)
next
  case (Cons it rest)
  then obtain f where it: "it = Some f" by (cases it) simp_all
  with Cons.prems obtain ex1 where
    1: "invoke (CallbackCall i (data this)) f this ex = Returns ex1" and
    2: "notify_callbacks this rest (Suc i) ex1 = Returns ex'"
    by (auto simp: then_do_Returns_iff)
  from Cons.IH [OF 2] invoke_Returns_calls [OF 1] show ?case
    by (simp add: callback_pass_Cons)
qed

lemma notify_observers_Returns:
  "notify_observers this obs j ex = Returns ex' \<Longrightarrow> calls ex' = calls ex @ observer_pass obs j (data this)"
proof (induction obs arbitrary: j ex)
  case Nil
  then show ?case by (simp add: observer_pass_Nil)
next
  case (Cons it rest)
  show ?case
  proof (cases it)
    case None
    with Cons show ?thesis by (simp add: observer_pass_Cons)
  next
    case (Some ob)
    with Cons.prems obtain ex1 where
      1: "invoke (ObserveCall j (data this)) (Observe ob) this ex = Returns ex1" and
      2: "notify_observers this rest (Suc j) ex1 = Returns ex'"
      by (auto simp: then_do_Returns_iff)
    from Cons.IH [OF 2] invoke_Returns_calls [OF 1] Some show ?thesis
      by (simp add: observer_pass_Cons)
  qed
qed

lemma notifyAll_Returns:
  "notifyAll s ex = Returns ex' \<Longrightarrow> calls ex' = calls ex @ notification_pass s"
  by (auto simp: notifyAll_def notification_pass_def then_do_Returns_iff
      dest!: notify_callbacks_Returns notify_observers_Returns)

lemma notify_callbacks_prefix:
  "\<exists>ys. calls (state_of (notify_callbacks this cbs i ex)) = calls ex @ ys \<and> prefix ys (callback_pass cbs i (data this))"
proof (induction cbs arbitrary: i ex)
  case Nil
  then show ?case by (simp add: callback_pass_Nil)
next
  case (Cons it rest)
  show ?case
  proof (cases it)
    case None
    then show ?thesis by simp
  next
    case (Some f)
    show ?thesis
    proof (cases "invoke (CallbackCall i (data this)) f this ex")
      case (Returns ex1)
      from Cons.IH [of "Suc i" ex1] invoke_Returns_calls [OF Returns] Some Returns
      show ?thesis by (auto simp: callback_pass_Cons)
    next
      case (Throws e ex1)
      with invoke_calls [of "CallbackCall i (data this)" f this ex] Some show ?thesis
        by (simp add: callback_pass_Cons)
    next
      case (Terminates ex1)
      with invoke_calls [of "CallbackCall i (data this)" f this ex] Some show ?thesis
        by (simp add: callback_pass_Cons)
    qed
  qed
qed

lemma notify_observers_prefix:
  "\<exists>ys. calls (state_of (notify_observers this obs j ex)) = calls ex @ ys \<and> prefix ys (observer_pass obs j (data this))"
proof (induction obs arbitrary: j ex)
  case Nil
  then show ?case by (simp add: observer_pass_Nil)
next
  case (Cons it rest)
  show ?case
  proof (cases it)
    case None
    with Cons.IH [of "Suc j" ex] show ?thesis by (simp add: observer_pass_Cons)
  next
    case (Some ob)
    show ?thesis
    proof (cases "invoke (ObserveCall j (data this)) (Observe ob) this ex")
      case (Returns ex1)
      from Cons.IH [of "Suc j" ex1] invoke_Returns_calls [OF Returns] Some Returns
      show ?thesis by (auto simp: observer_pass_Cons)
    next
      case (Throws e ex1)
      with invoke_calls [of "ObserveCall j (data this)" "Observe ob" this ex] Some show ?thesis
        by (simp add: observer_pass_Cons)
    next
      case (Terminates ex1)
      with invoke_calls [of "ObserveCall j (data this)" "Observe ob" this ex] Some show ?thesis
        by (simp add: observer_pass_Cons)
    qed
  qed
qed

lemma notifyAll_prefix:
  "\<exists>ys. calls (state_of (notifyAll s ex)) = calls ex @ ys \<and> prefix ys (notification_pass s)"
proof (cases "notify_callbacks s (callbacks s) 0 ex")
  case (Returns ex1)
  from notify_callbacks_Returns [OF Returns]
    notify_observers_prefix [of s "observers s" 0 ex1] Returns
  show ?thesis by (auto simp: notifyAll_def notification_pass_def)
next
  case (Throws e ex1)
  with notify_callbacks_prefix [of s "callbacks s" 0 ex]
  show ?thesis by (auto simp: notifyAll_def notification_pass_def prefix_def)
next
  case (Terminates ex1)
  with notify_callbacks_prefix [of s "callbacks s" 0 ex]
  show ?thesis by (auto simp: notifyAll_def notification_pass_def prefix_def)
qed

lemma callback_pass_upt: "callback_pass cbs n d = map (\<lambda>i. CallbackCall i d) [n..<n + length cbs]"
proof (induction cbs arbitrary: n)
  case Nil
  then show ?case by (simp add: callback_pass_Nil)
next
  case (Cons it rest)
  have "[n..<n + length (it # rest)] = n # [Suc n..<Suc n + length rest]"
    by (simp add: upt_rec)
  with Cons.IH [of "Suc n"] show ?case
    by (simp add: callback_pass_Cons)
qed

lemma nth_Cons_shift: "Suc n \<le> j \<Longrightarrow> (it # rest) ! (j - n) = rest ! (j - Suc n)"
  by (simp add: Suc_diff_le)

lemma observer_pass_upt:
  "observer_pass obs n d =
     map (\<lambda>j. ObserveCall j d) (filter (\<lambda>j. obs ! (j - n) \<noteq> None) [n..<n + length obs])"
proof (induction obs arbitrary: n)
  case Nil
  then show ?case by (simp add: observer_pass_Nil)
next
  case (Cons it rest)
  define U where "U = [Suc n..<Suc n + length rest]"
  have upt: "[n..<n + length (it # rest)] = n # U"
    by (simp add: upt_rec U_def)
  have tl: "filter (\<lambda>j. (it # rest) ! (j - n) \<noteq> None) U = filter (\<lambda>j. rest ! (j - Suc n) \<noteq> None) U"
  proof (rule filter_cong [OF refl])
    fix j assume "j \<in> set U"
    then have "Suc n \<le> j" by (simp only: U_def set_upt atLeastLessThan_iff)
    then show "((it # rest) ! (j - n) \<noteq> None) = (rest ! (j - Suc n) \<noteq> None)"
      by (simp add: nth_Cons_shift)
  qed
  have IH: "observer_pass rest (Suc n) d = map (\<lambda>j. ObserveCall j d) (filter (\<lambda>j. rest ! (j - Suc n) \<noteq> None) U)"
    unfolding U_def by (rule Cons.IH)
  show ?case
    unfolding upt using tl by (auto simp: observer_pass_Cons IH)
qed

lemma notification_pass_upt:
  "notification_pass s =
     map (\<lambda>i. CallbackCall i (data s)) [0..<length (callbacks s)] @
     map (\<lambda>j. ObserveCall j (data s)) (filter (\<lambda>j. observers s ! j \<noteq> None) [0..<length (observers s)])"
  by (simp add: notification_pass_def callback_pass_upt observer_pass_upt)

lemma filter_callback_slot_callback_pass:
  "filter (is_callback_slot i) (callback_pass cbs n d) =
     (if n \<le> i \<and> i < n + length cbs then [CallbackCall i d] else [])"
  by (induction cbs arbitrary: n) (auto simp: callback_pass_Nil callback_pass_Cons)

lemma filter_callback_slot_observer_pass:
  "filter (is_callback_slot i) (observer_pass obs n d) = []"
  by (induction obs arbitrary: n) (auto simp: observer_pass_Nil observer_pass_Cons)

lemma filter_observer_slot_callback_pass:
  "filter (is_observer_slot j) (callback_pass cbs n d) = []"
  by (induction cbs arbitrary: n) (auto simp: callback_pass_Nil callback_pass_Cons)

lemma filter_observer_slot_observer_pass:
  "filter (is_observer_slot j) (observer_pass obs n d) =
     (if n \<le> j \<and> j < n + length obs \<and> obs ! (j - n) \<noteq> None then [ObserveCall j d] else [])"
proof (induction obs arbitrary: n)
  case Nil
  then show ?case by (simp add: observer_pass_Nil)
next
  case (Cons it rest)
  show ?case
    using Cons.IH [of "Suc n"]
    by (auto simp: observer_pass_Cons nth_Cons_shift)
qed

lemma callback_slot_once:
  "filter (is_callback_slot i) (notification_pass s) =
     (if i < length (callbacks s) then [CallbackCall i (data s)] else [])"
  by (simp add: notification_pass_def filter_callback_slot_callback_pass
      filter_callback_slot_observer_pass)

lemma observer_slot_once:
  "filter (is_observer_slot j) (notification_pass s) =
     (if j < length (observers s) \<and> observers s ! j \<noteq> None then [ObserveCall j (data s)] else [])"
  by (simp add: notification_pass_def filter_observer_slot_callback_pass
      filter_observer_slot_observer_pass)

lemma setValue_container: "fst (state_of (setValue d (s, ex))) = s\<lparr>data := d\<rparr>"
  by (simp add: Let_def split: outcome.split)

lemma setValue_Returns:
  "setValue d (s, ex) = Returns (s', ex') \<Longrightarrow>
     s' = s\<lparr>data := d\<rparr> \<and> calls ex' = calls ex @ notification_pass (s\<lparr>data := d\<rparr>)"
  by (auto simp: Let_def split: outcome.splits dest: notifyAll_Returns)

lemma setValue_prefix:
  "\<exists>ys. calls (snd (state_of (setValue d (s, ex)))) = calls ex @ ys \<and>
        prefix ys (notification_pass (s\<lparr>data := d\<rparr>))"
  using notifyAll_prefix [of "s\<lparr>data := d\<rparr>" ex]
  by (auto simp: Let_def split: outcome.split)

lemma operator_assign_noexcept: "operator_assign d st = noexcept (setValue d st)"
  by (cases "setValue d st") (simp_all add: operator_assign_def)

lemma state_of_noexcept: "state_of (noexcept r) = state_of r"
  by (cases r) simp_all

subsection \<open>The history against the outside state\<close>

text \<open>
  A pass leaves the outside state, and ends, as the replay of its entries does: every
  entry of the history is one application of the listener stored at the slot it names.
\<close>

lemma project_noexcept: "project g (noexcept r) = noexcept (project g r)"
  by (cases r) simp_all

lemma project_then_do:
  assumes "\<And>s. project g (k s) = k' (g s)"
  shows "project g (then_do r k) = then_do (project g r) k'"
  using assms by (cases r) simp_all

lemma invoke_world:
  "project world (invoke c f this ex) = f (data this) (data this) (world ex)"
  by (simp add: invoke_def split: outcome.split)

lemma replay_append: "replay s (xs @ ys) w = then_do (replay s xs w) (replay s ys)"
proof (induction s xs w rule: replay.induct)
  case (1 s w)
  then show ?case by simp
next
  case (2 s i d cs w)
  show ?case
  proof (cases "stored_at (callbacks s) i")
    case None
    then show ?thesis by simp
  next
    case (Some f)
    with 2 show ?thesis by (cases "f d (data s) w") simp_all
  qed
next
  case (3 s j d cs w)
  show ?case
  proof (cases "stored_at (observers s) j")
    case None
    with 3 show ?thesis by simp
  next
    case (Some ob)
    with 3 show ?thesis by (cases "Observe ob d (data s) w") simp_all
  qed
qed

lemma drop_Cons_stored_at:
  assumes "drop i xs = it # rest"
  shows "stored_at xs i = it" and "drop (Suc i) xs = rest"
proof -
  from assms have i: "i < length xs" by (cases "i < length xs") simp_all
  from assms i have "xs ! i = it" by (metis Cons_nth_drop_Suc list.inject)
  with i show "stored_at xs i = it" by (simp add: stored_at_def)
  from assms i show "drop (Suc i) xs = rest" by (metis Cons_nth_drop_Suc list.inject)
qed

lemma notify_callbacks_replay:
  assumes "drop i (callbacks this) = cbs"
  shows "project world (notify_callbacks this cbs i ex) =
           replay this (callback_pass cbs i (data this)) (world ex)"
  using assms
proof (induction cbs arbitrary: i ex)
  case Nil
  then show ?case by (simp add: callback_pass_Nil)
next
  case (Cons it rest)
  from drop_Cons_stored_at [OF Cons.prems] have
    at: "stored_at (callbacks this) i = it" and rest: "drop (Suc i) (callbacks this) = rest"
    by simp_all
  show ?case
  proof (cases it)
    case None
    with at show ?thesis by (simp add: callback_pass_Cons)
  next
    case (Some f)
    have "project world
            (then_do (invoke (CallbackCall i (data this)) f this ex) (notify_callbacks this rest (Suc i))) =
          then_do (project world (invoke (CallbackCall i (data this)) f this ex))
            (replay this (callback_pass rest (Suc i) (data this)))"
      by (rule project_then_do) (rule Cons.IH [OF rest])
    with Some at show ?thesis by (simp add: callback_pass_Cons invoke_world)
  qed
qed

lemma notify_observers_replay:
  assumes "drop j (observers this) = obs"
  shows "project world (notify_observers this obs j ex) =
           replay this (observer_pass obs j (data this)) (world ex)"
  using assms
proof (induction obs arbitrary: j ex)
  case Nil
  then show ?case by (simp add: observer_pass_Nil)
next
  case (Cons it rest)
  from drop_Cons_stored_at [OF Cons.prems] have
    at: "stored_at (observers this) j = it" and rest: "drop (Suc j) (observers this) = rest"
    by simp_all
  show ?case
  proof (cases it)
    case None
    with Cons.IH [OF rest] show ?thesis by (simp add: observer_pass_Cons)
  next
    case (Some ob)
    have "project world
            (then_do (invoke (ObserveCall j (data this)) (Observe ob) this ex)
               (notify_observers this rest (Suc j))) =
          then_do (project world (invoke (ObserveCall j (data this)) (Observe ob) this ex))
            (replay this (observer_pass rest (Suc j) (data this)))"
      by (rule project_then_do) (rule Cons.IH [OF rest])
    with Some at show ?thesis by (simp add: observer_pass_Cons invoke_world)
  qed
qed

lemma notifyAll_replay:
  "project world (notifyAll s ex) = replay s (notification_pass s) (world ex)"
proof -
  have "project world (notifyAll s ex) =
        then_do (project world (notify_callbacks s (callbacks s) 0 ex))
          (replay s (observer_pass (observers s) 0 (data s)))"
    unfolding notifyAll_def
    by (rule project_then_do) (rule notify_observers_replay, simp)
  then show ?thesis
    by (simp add: notify_callbacks_replay notification_pass_def replay_append)
qed

lemma setValue_outside:
  "outside (setValue v (s, ex)) =
     replay (s\<lparr>data := v\<rparr>) (notification_pass (s\<lparr>data := v\<rparr>)) (world ex)"
proof -
  have "outside (setValue v (s, ex)) = project world (notifyAll (s\<lparr>data := v\<rparr>) ex)"
    by (simp add: Let_def split: outcome.split)
  then show ?thesis by (simp only: notifyAll_replay)
qed

lemma operator_assign_outside:
  "outside (operator_assign v (s, ex)) =
     noexcept (replay (s\<lparr>data := v\<rparr>) (notification_pass (s\<lparr>data := v\<rparr>)) (world ex))"
  by (simp only: operator_assign_noexcept project_noexcept setValue_outside)

lemma then_do_setValue_outside:
  "outside (then_do (setValue v1 (s, ex)) (setValue v2)) =
     then_do (replay (s\<lparr>data := v1\<rparr>) (notification_pass (s\<lparr>data := v1\<rparr>)) (world ex))
             (replay (s\<lparr>data := v2\<rparr>) (notification_pass (s\<lparr>data := v2\<rparr>)))"
proof -
  let ?first = "replay (s\<lparr>data := v1\<rparr>) (notification_pass (s\<lparr>data := v1\<rparr>)) (world ex)"
  have first: "?first = outside (setValue v1 (s, ex))"
    by (rule setValue_outside [symmetric])
  show ?thesis
  proof (cases "setValue v1 (s, ex)")
    case (Returns st1)
    obtain s1 ex1 where st1: "st1 = (s1, ex1)" by (cases st1)
    from setValue_container [of v1 s ex] have "s1 = s\<lparr>data := v1\<rparr>"
      by (simp only: Returns st1 outcome.sel fst_conv)
    then have "outside (setValue v2 (s1, ex1)) =
        replay (s\<lparr>data := v2\<rparr>) (notification_pass (s\<lparr>data := v2\<rparr>)) (world ex1)"
      using setValue_outside [of v2 "s\<lparr>data := v1\<rparr>" ex1] by simp
    moreover have "?first = Returns (world ex1)"
      by (simp only: first Returns st1 project.simps snd_conv)
    ultimately show ?thesis
      by (simp only: Returns st1 then_do.simps)
  next
    case (Throws e st1)
    have "?first = Throws e (world (snd st1))"
      by (simp only: first Throws project.simps)
    then show ?thesis
      by (simp only: Throws then_do.simps project.simps)
  next
    case (Terminates st1)
    have "?first = Terminates (world (snd st1))"
      by (simp only: first Terminates project.simps)
    then show ?thesis
      by (simp only: Terminates then_do.simps project.simps)
  qed
qed

subsection \<open>When no listener fails\<close>

lemma notify_callbacks_no_fail:
  assumes "\<forall>it \<in> set cbs. \<exists>f. it = Some f \<and> (\<forall>d h w. \<exists>w'. f d h w = Returns w')"
  shows "\<exists>ex'. notify_callbacks this cbs i ex = Returns ex'"
  using assms
proof (induction cbs arbitrary: i ex)
  case Nil
  then show ?case by simp
next
  case (Cons it rest)
  then obtain f w where it: "it = Some f" and f: "f (data this) (data this) (world ex) = Returns w"
    by (metis list.set_intros(1))
  from Cons.prems have "\<forall>it \<in> set rest. \<exists>f. it = Some f \<and> (\<forall>d h w. \<exists>w'. f d h w = Returns w')"
    by simp
  from Cons.IH [OF this] it f show ?case by (simp add: invoke_def)
qed

lemma notify_observers_no_fail:
  assumes "\<forall>ob. Some ob \<in> set obs \<longrightarrow> (\<forall>d h w. \<exists>w'. Observe ob d h w = Returns w')"
  shows "\<exists>ex'. notify_observers this obs j ex = Returns ex'"
  using assms
proof (induction obs arbitrary: j ex)
  case Nil
  then show ?case by simp
next
  case (Cons it rest)
  from Cons.prems have rest: "\<forall>ob. Some ob \<in> set rest \<longrightarrow> (\<forall>d h w. \<exists>w'. Observe ob d h w = Returns w')"
    by simp
  show ?case
  proof (cases it)
    case None
    with Cons.IH [OF rest] show ?thesis by simp
  next
    case (Some ob)
    with Cons.prems obtain w where "Observe ob (data this) (data this) (world ex) = Returns w"
      by (metis list.set_intros(1))
    with Cons.IH [OF rest] Some show ?thesis by (simp add: invoke_def)
  qed
qed

lemma setValue_no_fail:
  assumes "\<forall>it \<in> set (callbacks s). \<exists>f. it = Some f \<and> (\<forall>d h w. \<exists>w'. f d h w = Returns w')"
    and "\<forall>ob. Some ob \<in> set (observers s) \<longrightarrow> (\<forall>d h w. \<exists>w'. Observe ob d h w = Returns w')"
  shows "\<exists>ex'. setValue v (s, ex) = Returns (s\<lparr>data := v\<rparr>, ex')"
proof -
  from notify_callbacks_no_fail [OF assms(1)] obtain ex1 where
    1: "notify_callbacks (s\<lparr>data := v\<rparr>) (callbacks s) 0 ex = Returns ex1" by blast
  from notify_observers_no_fail [OF assms(2)] obtain ex2 where
    2: "notify_observers (s\<lparr>data := v\<rparr>) (observers s) 0 ex1 = Returns ex2" by blast
  from 1 2 show ?thesis by (simp add: notifyAll_def)
qed

lemma then_do_setValue_Returns:
  assumes "then_do (setValue v1 (s, ex)) (setValue v2) = Returns (s2, ex2)"
  shows "s2 = s\<lparr>data := v2\<rparr> \<and>
         calls ex2 = calls ex @ notification_pass (s\<lparr>data := v1\<rparr>) @ notification_pass (s\<lparr>data := v2\<rparr>)"
proof -
  from assms obtain s1 ex1 where
    1: "setValue v1 (s, ex) = Returns (s1, ex1)" and 2: "setValue v2 (s1, ex1) = Returns (s2, ex2)"
    by (auto simp: then_do_Returns_iff)
  from setValue_Returns [OF 1] setValue_Returns [OF 2] show ?thesis by simp
qed

subsection \<open>The assignment operator and \<open>setValue\<close>\<close>

lemma setValue_Returns_operator_assign:
  "setValue v st = Returns st' \<longleftrightarrow> operator_assign v st = Returns st'"
  by (simp add: operator_assign_noexcept noexcept_Returns_iff)

lemma setValue_Throws_operator_assign:
  "setValue v st = Throws e st' \<Longrightarrow> operator_assign v st = Terminates st'"
  by (simp add: operator_assign_noexcept)

lemma operator_assign_never_Throws: "operator_assign v st \<noteq> Throws e st'"
  by (cases "setValue v st") (simp_all add: operator_assign_noexcept)

lemma operator_assign_prefix:
  "\<exists>ys. calls (snd (state_of (operator_assign d (s, ex)))) = calls ex @ ys \<and>
        prefix ys (notification_pass (s\<lparr>data := d\<rparr>))"
  using setValue_prefix [of d s ex]
  by (simp only: operator_assign_noexcept state_of_noexcept)

text \<open>
  Apart from what becomes of an exception, the assignment operator is \<open>setValue\<close>: it
  leaves the same state behind in every case, returns exactly when \<open>setValue\<close> does, and
  so does the chain \<^verbatim>\<open>(a = v1) = v2\<close> against two calls of \<open>setValue\<close>.
\<close>

lemma operator_assign_unless_Throws:
  "state_of (operator_assign v st) = state_of (setValue v st) \<and>
   (setValue v st = Returns st' \<longleftrightarrow> operator_assign v st = Returns st') \<and>
   (then_do (setValue v1 st) (setValue v2) = Returns st2 \<longleftrightarrow>
      then_do (operator_assign v1 st) (operator_assign v2) = Returns st2) \<and>
   (then_do (operator_assign v1 (s, ex)) (operator_assign v2) = Returns (s2, ex2) \<longrightarrow>
      Get (s2, ex2) = Returns (v2, (s2, ex2)) \<and> s2 = s\<lparr>data := v2\<rparr> \<and>
      calls ex2 = calls ex @ notification_pass (s\<lparr>data := v1\<rparr>) @ notification_pass (s\<lparr>data := v2\<rparr>))"
proof -
  have 1: "state_of (operator_assign v st) = state_of (setValue v st)"
    by (simp only: operator_assign_noexcept state_of_noexcept)
  have 2: "then_do (setValue v1 t) (setValue v2) = Returns t2 \<longleftrightarrow>
      then_do (operator_assign v1 t) (operator_assign v2) = Returns t2" for t t2
    by (simp add: then_do_Returns_iff setValue_Returns_operator_assign)
  have 3: "then_do (operator_assign v1 (s, ex)) (operator_assign v2) = Returns (s2, ex2) \<longrightarrow>
      Get (s2, ex2) = Returns (v2, (s2, ex2)) \<and> s2 = s\<lparr>data := v2\<rparr> \<and>
      calls ex2 = calls ex @ notification_pass (s\<lparr>data := v1\<rparr>) @ notification_pass (s\<lparr>data := v2\<rparr>)"
  proof
    assume "then_do (operator_assign v1 (s, ex)) (operator_assign v2) = Returns (s2, ex2)"
    then have "then_do (setValue v1 (s, ex)) (setValue v2) = Returns (s2, ex2)"
      by (simp only: 2)
    from then_do_setValue_Returns [OF this]
    show "Get (s2, ex2) = Returns (v2, (s2, ex2)) \<and> s2 = s\<lparr>data := v2\<rparr> \<and>
      calls ex2 = calls ex @ notification_pass (s\<lparr>data := v1\<rparr>) @ notification_pass (s\<lparr>data := v2\<rparr>)"
      by simp
  qed
  from 1 2 [of st st2] 3 setValue_Returns_operator_assign [of v st st'] show ?thesis
    by blast
qed

subsection \<open>Slots and duplicates\<close>

lemma callback_slots_append: "callback_slots (xs @ ys) = callback_slots xs @ callback_slots ys"
  by (induction xs rule: callback_slots.induct) simp_all

lemma callback_slots_callback_pass: "callback_slots (callback_pass cbs n d) = [n..<n + length cbs]"
proof (induction cbs arbitrary: n)
  case Nil
  then show ?case by (simp add: callback_pass_Nil)
next
  case (Cons it rest)
  have "[n..<n + length (it # rest)] = n # [Suc n..<Suc n + length rest]"
    by (simp add: upt_rec)
  with Cons.IH [of "Suc n"] show ?case by (simp add: callback_pass_Cons)
qed

lemma callback_slots_observer_pass: "callback_slots (observer_pass obs n d) = []"
  by (induction obs arbitrary: n) (simp_all add: observer_pass_Nil observer_pass_Cons)

lemma callback_slots_notification_pass:
  "callback_slots (notification_pass s) = [0..<length (callbacks s)]"
  by (simp add: notification_pass_def callback_slots_append callback_slots_callback_pass
      callback_slots_observer_pass)

lemma count_list_replicate_same: "count_list (replicate k x) x = k"
  by (induction k) simp_all

lemma register_times:
  "((\<lambda>r. then_do r (addObserver_callback cb)) ^^ k) (Returns (s, ex)) =
     Returns (s\<lparr>callbacks := callbacks s @ replicate k cb\<rparr>, ex)"
proof (induction k)
  case 0
  then show ?case by simp
next
  case (Suc k)
  then show ?case by (simp add: replicate_append_same)
qed

subsection \<open>A callback that throws\<close>

text \<open>
  The pass stops at the first callback that throws: the callbacks before it have run, the
  ones after it and all observers are not invoked. \<open>setValue\<close> hands the exception to
  its caller; the assignment operator, being \<^verbatim>\<open>noexcept\<close>, ends the program.
\<close>

lemma notify_callbacks_append:
  "notify_callbacks this (xs @ ys) i ex =
     then_do (notify_callbacks this xs i ex) (notify_callbacks this ys (i + length xs))"
proof (induction xs arbitrary: i ex)
  case Nil
  then show ?case by simp
next
  case (Cons it rest)
  show ?case
  proof (cases it)
    case None
    then show ?thesis by simp
  next
    case (Some f)
    then show ?thesis
      by (cases "invoke (CallbackCall i (data this)) f this ex") (simp_all add: Cons.IH)
  qed
qed

lemma setValue_fail_fast:
  assumes "callbacks s = pre @ Some f # post"
    and "notify_callbacks (s\<lparr>data := d\<rparr>) pre 0 ex = Returns ex1"
    and "f d d (world ex1) = Throws e w"
  shows "setValue d (s, ex) =
           Throws e (s\<lparr>data := d\<rparr>,
             \<lparr>world = w, calls = calls ex @ callback_pass pre 0 d @ [CallbackCall (length pre) d]\<rparr>)"
    and "operator_assign d (s, ex) =
           Terminates (s\<lparr>data := d\<rparr>,
             \<lparr>world = w, calls = calls ex @ callback_pass pre 0 d @ [CallbackCall (length pre) d]\<rparr>)"
proof -
  from notify_callbacks_Returns [OF assms(2)] have "calls ex1 = calls ex @ callback_pass pre 0 d"
    by simp
  with assms show "setValue d (s, ex) =
           Throws e (s\<lparr>data := d\<rparr>,
             \<lparr>world = w, calls = calls ex @ callback_pass pre 0 d @ [CallbackCall (length pre) d]\<rparr>)"
    by (simp add: notifyAll_def notify_callbacks_append invoke_def)
  then show "operator_assign d (s, ex) =
           Terminates (s\<lparr>data := d\<rparr>,
             \<lparr>world = w, calls = calls ex @ callback_pass pre 0 d @ [CallbackCall (length pre) d]\<rparr>)"
    by (simp add: operator_assign_noexcept)
qed

subsection \<open>A callback registered several times\<close>

text \<open>
  The loops read the container only for the member \<^verbatim>\<open>data_\<close>. A run over \<open>k\<close> copies of
  one callback is that callback applied \<open>k\<close> times in a row.
\<close>

lemma then_do_assoc: "then_do (then_do r k) k' = then_do r (\<lambda>s. then_do (k s) k')"
  by (cases r) simp_all

lemma funpow_then_do:
  "((\<lambda>r. then_do r h) ^^ k) r = then_do r (\<lambda>w. ((\<lambda>r. then_do r h) ^^ k) (Returns w))"
proof (induction k)
  case 0
  show ?case by (cases r) simp_all
next
  case (Suc k)
  have "((\<lambda>r. then_do r h) ^^ Suc k) r = then_do (((\<lambda>r. then_do r h) ^^ k) r) h"
    by simp
  also have "\<dots> = then_do (then_do r (\<lambda>w. ((\<lambda>r. then_do r h) ^^ k) (Returns w))) h"
    by (simp only: Suc.IH [symmetric])
  also have "\<dots> = then_do r (\<lambda>w. then_do (((\<lambda>r. then_do r h) ^^ k) (Returns w)) h)"
    by (rule then_do_assoc)
  finally show ?case by simp
qed

lemma notify_callbacks_data:
  "data this = data that \<Longrightarrow> notify_callbacks this cbs i ex = notify_callbacks that cbs i ex"
proof (induction cbs arbitrary: i ex)
  case Nil
  show ?case by simp
next
  case (Cons it rest)
  then have "notify_callbacks this rest (Suc i) = notify_callbacks that rest (Suc i)"
    by blast
  with Cons.prems show ?case by (simp add: invoke_def split: option.split)
qed

lemma notify_observers_data:
  "data this = data that \<Longrightarrow> notify_observers this obs j ex = notify_observers that obs j ex"
proof (induction obs arbitrary: j ex)
  case Nil
  show ?case by simp
next
  case (Cons it rest)
  then have "notify_observers this rest (Suc j) = notify_observers that rest (Suc j)"
    by blast
  with Cons.prems show ?case by (simp add: invoke_def split: option.split)
qed

lemma notify_callbacks_replicate:
  "project world (notify_callbacks this (replicate k (Some f)) i ex) =
     ((\<lambda>r. then_do r (f (data this) (data this))) ^^ k) (Returns (world ex))"
proof (induction k arbitrary: i ex)
  case 0
  show ?case by simp
next
  case (Suc k)
  let ?g = "\<lambda>r. then_do r (f (data this) (data this))"
  have "project world (notify_callbacks this (replicate (Suc k) (Some f)) i ex) =
        then_do (project world (invoke (CallbackCall i (data this)) f this ex))
          (\<lambda>w. (?g ^^ k) (Returns w))"
    unfolding replicate_Suc notify_callbacks.simps option.case
    by (rule project_then_do) (rule Suc.IH)
  also have "\<dots> = then_do (?g (Returns (world ex))) (\<lambda>w. (?g ^^ k) (Returns w))"
    by (simp add: invoke_world)
  also have "\<dots> = (?g ^^ k) (?g (Returns (world ex)))"
    by (rule funpow_then_do [symmetric])
  also have "\<dots> = (?g ^^ Suc k) (Returns (world ex))"
    by (simp only: funpow_Suc_right o_apply)
  finally show ?case .
qed

lemma setValue_registered_outside:
  "outside (setValue v (s\<lparr>callbacks := callbacks s @ replicate k (Some f)\<rparr>, ex)) =
     then_do (then_do (replay (s\<lparr>data := v\<rparr>) (callback_pass (callbacks s) 0 v) (world ex))
                      (\<lambda>w. ((\<lambda>r. then_do r (f v v)) ^^ k) (Returns w)))
             (replay (s\<lparr>data := v\<rparr>) (observer_pass (observers s) 0 v))"
proof -
  let ?sk = "s\<lparr>callbacks := callbacks s @ replicate k (Some f), data := v\<rparr>"
  let ?s = "s\<lparr>data := v\<rparr>"
  have d: "data ?sk = data ?s" by simp
  have obs: "project world (notify_observers ?s (observers s) 0 ex2) =
      replay ?s (observer_pass (observers s) 0 v) (world ex2)" for ex2
    using notify_observers_replay [of 0 ?s "observers s" ex2] by simp
  have rep: "project world (notify_callbacks ?s (replicate k (Some f)) (0 + length (callbacks s)) ex1) =
      ((\<lambda>r. then_do r (f v v)) ^^ k) (Returns (world ex1))" for ex1
    using notify_callbacks_replicate [of ?s k f "0 + length (callbacks s)" ex1] by simp
  have cbs: "project world (notify_callbacks ?s (callbacks s) 0 ex) =
      replay ?s (callback_pass (callbacks s) 0 v) (world ex)"
    using notify_callbacks_replay [of 0 ?s "callbacks s" ex] by simp
  have "outside (setValue v (s\<lparr>callbacks := callbacks s @ replicate k (Some f)\<rparr>, ex)) =
        project world (notifyAll ?sk ex)"
    by (simp add: Let_def split: outcome.split)
  also have "\<dots> = project world
      (then_do (then_do (notify_callbacks ?s (callbacks s) 0 ex)
                        (notify_callbacks ?s (replicate k (Some f)) (0 + length (callbacks s))))
               (notify_observers ?s (observers s) 0))"
  proof -
    have "notify_callbacks ?sk cs i = notify_callbacks ?s cs i" for cs i
      by (rule ext) (rule notify_callbacks_data [OF d])
    moreover have "notify_observers ?sk os j = notify_observers ?s os j" for os j
      by (rule ext) (rule notify_observers_data [OF d])
    ultimately show ?thesis
      by (simp add: notifyAll_def notify_callbacks_append)
  qed
  also have "\<dots> = then_do (project world
        (then_do (notify_callbacks ?s (callbacks s) 0 ex)
                 (notify_callbacks ?s (replicate k (Some f)) (0 + length (callbacks s)))))
      (replay ?s (observer_pass (observers s) 0 v))"
    by (rule project_then_do) (rule obs)
  also have "project world
        (then_do (notify_callbacks ?s (callbacks s) 0 ex)
                 (notify_callbacks ?s (replicate k (Some f)) (0 + length (callbacks s)))) =
      then_do (project world (notify_callbacks ?s (callbacks s) 0 ex))
        (\<lambda>w. ((\<lambda>r. then_do r (f v v)) ^^ k) (Returns w))"
    by (rule project_then_do) (rule rep)
  finally show ?thesis by (simp only: cbs)
qed

section \<open>The claims\<close>

subsection \<open>Two updates in sequence\<close>

text \<open>
  C1. Two calls of \<open>setValue\<close>, first with \<open>v1\<close> and then with \<open>v2\<close>. In every case the
  two calls end, and leave the outside state, as this does: every callback stored, in
  insertion order, then every observer that is not null, in insertion order, applied to
  \<open>v1\<close> while the container holds \<open>v1\<close>, and after that the same listeners applied to \<open>v2\<close>
  while the container holds \<open>v2\<close>; so each listener runs after the stored value has been
  replaced. When both calls return, \<open>Get\<close> reads \<open>v2\<close>, and the history has grown by
  the pass for \<open>v1\<close> followed by the pass for \<open>v2\<close>: every callback slot, and every
  observer slot that is not null, registered before the two calls has exactly two
  invocations, the first with \<open>v1\<close> and the second with \<open>v2\<close>.
\<close>

theorem setValue_twice:
  "outside (then_do (setValue v1 (s, ex)) (setValue v2)) =
     then_do (replay (s\<lparr>data := v1\<rparr>) (notification_pass (s\<lparr>data := v1\<rparr>)) (world ex))
             (replay (s\<lparr>data := v2\<rparr>) (notification_pass (s\<lparr>data := v2\<rparr>))) \<and>
   (then_do (setValue v1 (s, ex)) (setValue v2) = Returns (s2, ex2) \<longrightarrow>
      Get (s2, ex2) = Returns (v2, (s2, ex2)) \<and>
      s2 = s\<lparr>data := v2\<rparr> \<and>
      calls ex2 = calls ex @ notification_pass (s\<lparr>data := v1\<rparr>) @ notification_pass (s\<lparr>data := v2\<rparr>) \<and>
      (\<forall>i < length (callbacks s).
         filter (is_callback_slot i) (drop (length (calls ex)) (calls ex2)) =
           [CallbackCall i v1, CallbackCall i v2]) \<and>
      (\<forall>j < length (observers s). observers s ! j \<noteq> None \<longrightarrow>
         filter (is_observer_slot j) (drop (length (calls ex)) (calls ex2)) =
           [ObserveCall j v1, ObserveCall j v2]))"
proof (intro conjI impI)
  show "outside (then_do (setValue v1 (s, ex)) (setValue v2)) =
     then_do (replay (s\<lparr>data := v1\<rparr>) (notification_pass (s\<lparr>data := v1\<rparr>)) (world ex))
             (replay (s\<lparr>data := v2\<rparr>) (notification_pass (s\<lparr>data := v2\<rparr>)))"
    by (rule then_do_setValue_outside)
next
  assume r: "then_do (setValue v1 (s, ex)) (setValue v2) = Returns (s2, ex2)"
  from then_do_setValue_Returns [OF r] have
    s2: "s2 = s\<lparr>data := v2\<rparr>" and
    c: "calls ex2 = calls ex @ notification_pass (s\<lparr>data := v1\<rparr>) @ notification_pass (s\<lparr>data := v2\<rparr>)"
    by simp_all
  from s2 show "Get (s2, ex2) = Returns (v2, (s2, ex2))" by simp
  from s2 show "s2 = s\<lparr>data := v2\<rparr>" .
  from c show "calls ex2 = calls ex @ notification_pass (s\<lparr>data := v1\<rparr>) @ notification_pass (s\<lparr>data := v2\<rparr>)" .
  from c show "\<forall>i < length (callbacks s).
      filter (is_callback_slot i) (drop (length (calls ex)) (calls ex2)) =
        [CallbackCall i v1, CallbackCall i v2]"
    by (simp add: callback_slot_once)
  from c show "\<forall>j < length (observers s). observers s ! j \<noteq> None \<longrightarrow>
      filter (is_observer_slot j) (drop (length (calls ex)) (calls ex2)) =
        [ObserveCall j v1, ObserveCall j v2]"
    by (simp add: observer_slot_once)
qed

text \<open>
  The sample container, set to 1 and then to 2. The log shows the first callback, then
  the second, then the observer, which read 1 and then 2 from the container.
\<close>

theorem setValue_twice_witness:
  "then_do (setValue 1 (sample, fresh)) (setValue 2) =
     Returns (sample\<lparr>data := 2\<rparr>,
       \<lparr>world = [1, 10, - 1, 2, 20, - 2],
        calls = [CallbackCall 0 1, CallbackCall 1 1, ObserveCall 1 1,
                 CallbackCall 0 2, CallbackCall 1 2, ObserveCall 1 2]\<rparr>) \<and>
   then_do (replay (sample\<lparr>data := 1\<rparr>) (notification_pass (sample\<lparr>data := 1\<rparr>)) (world fresh))
           (replay (sample\<lparr>data := 2\<rparr>) (notification_pass (sample\<lparr>data := 2\<rparr>))) =
     Returns [1, 10, - 1, 2, 20, - 2] \<and>
   filter (is_callback_slot 1)
     (drop (length (calls fresh))
        [CallbackCall 0 1, CallbackCall 1 1, ObserveCall 1 1,
         CallbackCall 0 2, CallbackCall 1 2, ObserveCall 1 2]) =
     [CallbackCall 1 1, CallbackCall 1 (2::int)]"
proof -
  let ?E = "\<lparr>world = [1, 10, - 1, 2, 20, - 2],
        calls = [CallbackCall 0 1, CallbackCall 1 1, ObserveCall 1 1,
                 CallbackCall 0 2, CallbackCall 1 2, ObserveCall 1 2]\<rparr> :: (int, int list) exec"
  have h: "then_do (setValue 1 (sample, fresh)) (setValue 2) = Returns (sample\<lparr>data := 2\<rparr>, ?E)"
    by (simp add: notifyAll_def invoke_def)
  note t = setValue_twice [of 1 sample fresh 2 "sample\<lparr>data := 2\<rparr>" ?E]
  from t h have "then_do (replay (sample\<lparr>data := 1\<rparr>) (notification_pass (sample\<lparr>data := 1\<rparr>)) (world fresh))
           (replay (sample\<lparr>data := 2\<rparr>) (notification_pass (sample\<lparr>data := 2\<rparr>))) =
     Returns [1, 10, - 1, 2, 20, - 2]"
    by (simp only: project.simps snd_conv exec.simps)
  moreover from t h have "\<forall>i < length (callbacks sample).
         filter (is_callback_slot i) (drop (length (calls fresh)) (calls ?E)) =
           [CallbackCall i 1, CallbackCall i 2]"
    by blast
  then have "filter (is_callback_slot 1)
     (drop (length (calls fresh))
        [CallbackCall 0 1, CallbackCall 1 1, ObserveCall 1 1,
         CallbackCall 0 2, CallbackCall 1 2, ObserveCall 1 2]) =
     [CallbackCall 1 1, CallbackCall 1 (2::int)]"
    by simp
  ultimately show ?thesis using h by blast
qed

subsection \<open>Order of the notification\<close>

text \<open>
  C2. The notification of \<open>setValue\<close> and of the assignment operator. In every case
  \<open>setValue\<close> ends, and leaves the outside state, as the replay of the pass does: the
  listener stored at callback slot 0 is applied first, then the one at slot 1, and so on
  in insertion order, then the observers that are not null in insertion order, so every
  callback runs before any observer; each is applied to the new value \<open>v\<close> with the
  container holding \<open>v\<close>, and the pass stops at the first listener that does not return.
  The assignment operator does the same, except that an exception ends the program. The
  history of a call is an initial part of the pass, and the whole pass when the call
  returns. The listeners cannot change the value: the container left behind holds \<open>v\<close>
  and the vectors it had.
\<close>

theorem notification_order:
  "outside (setValue v (s, ex)) =
     replay (s\<lparr>data := v\<rparr>) (notification_pass (s\<lparr>data := v\<rparr>)) (world ex) \<and>
   outside (operator_assign v (s, ex)) =
     noexcept (replay (s\<lparr>data := v\<rparr>) (notification_pass (s\<lparr>data := v\<rparr>)) (world ex)) \<and>
   notification_pass (s\<lparr>data := v\<rparr>) =
     map (\<lambda>i. CallbackCall i v) [0..<length (callbacks s)] @
     map (\<lambda>j. ObserveCall j v) (filter (\<lambda>j. observers s ! j \<noteq> None) [0..<length (observers s)]) \<and>
   (\<exists>ys. calls (snd (state_of (setValue v (s, ex)))) = calls ex @ ys \<and>
         prefix ys (notification_pass (s\<lparr>data := v\<rparr>))) \<and>
   (\<exists>ys. calls (snd (state_of (operator_assign v (s, ex)))) = calls ex @ ys \<and>
         prefix ys (notification_pass (s\<lparr>data := v\<rparr>))) \<and>
   (setValue v (s, ex) = Returns (s', ex') \<or> operator_assign v (s, ex) = Returns (s', ex') \<longrightarrow>
      s' = s\<lparr>data := v\<rparr> \<and> calls ex' = calls ex @ notification_pass (s\<lparr>data := v\<rparr>)) \<and>
   container_after (setValue v (s, ex)) = s\<lparr>data := v\<rparr> \<and>
   container_after (operator_assign v (s, ex)) = s\<lparr>data := v\<rparr>"
proof -
  have "setValue v (s, ex) = Returns (s', ex') \<or> operator_assign v (s, ex) = Returns (s', ex') \<longrightarrow>
      s' = s\<lparr>data := v\<rparr> \<and> calls ex' = calls ex @ notification_pass (s\<lparr>data := v\<rparr>)"
    using setValue_Returns [of v s ex s' ex']
    by (simp add: setValue_Returns_operator_assign [symmetric])
  moreover have "notification_pass (s\<lparr>data := v\<rparr>) =
     map (\<lambda>i. CallbackCall i v) [0..<length (callbacks s)] @
     map (\<lambda>j. ObserveCall j v) (filter (\<lambda>j. observers s ! j \<noteq> None) [0..<length (observers s)])"
    by (simp add: notification_pass_upt)
  moreover have "container_after (operator_assign v (s, ex)) = s\<lparr>data := v\<rparr>"
    by (simp only: operator_assign_noexcept state_of_noexcept setValue_container)
  ultimately show ?thesis
    using setValue_prefix [of v s ex] operator_assign_prefix [of v s ex] setValue_container [of v s ex]
      setValue_outside [of v s ex] operator_assign_outside [of v s ex]
    by blast
qed

text \<open>
  The sample container set to 7, by \<open>setValue\<close> and by the assignment operator: the log
  shows the first callback, the second callback, then the one observer that is not null.
\<close>

theorem notification_order_witness:
  "setValue 7 (sample, fresh) =
     Returns (sample\<lparr>data := 7\<rparr>,
       \<lparr>world = [7, 70, - 7], calls = [CallbackCall 0 7, CallbackCall 1 7, ObserveCall 1 7]\<rparr>) \<and>
   operator_assign 7 (sample, fresh) =
     Returns (sample\<lparr>data := 7\<rparr>,
       \<lparr>world = [7, 70, - 7], calls = [CallbackCall 0 7, CallbackCall 1 7, ObserveCall 1 7]\<rparr>) \<and>
   notification_pass (sample\<lparr>data := 7\<rparr>) = [CallbackCall 0 7, CallbackCall 1 7, ObserveCall 1 7] \<and>
   replay (sample\<lparr>data := 7\<rparr>) [CallbackCall 0 7, CallbackCall 1 7, ObserveCall 1 7] [] =
     Returns [7, 70, - 7]"
proof -
  let ?E = "\<lparr>world = [7, 70, - 7], calls = [CallbackCall 0 7, CallbackCall 1 7, ObserveCall 1 7]\<rparr>
      :: (int, int list) exec"
  have h: "setValue 7 (sample, fresh) = Returns (sample\<lparr>data := 7\<rparr>, ?E)"
    by (simp add: notifyAll_def invoke_def)
  have g: "operator_assign 7 (sample, fresh) = Returns (sample\<lparr>data := 7\<rparr>, ?E)"
    by (simp add: operator_assign_def notifyAll_def invoke_def)
  note t = notification_order [of 7 sample fresh "sample\<lparr>data := 7\<rparr>" ?E]
  from t h have "calls ?E = calls fresh @ notification_pass (sample\<lparr>data := 7\<rparr>)"
    by blast
  then have p: "notification_pass (sample\<lparr>data := 7\<rparr>) = [CallbackCall 0 7, CallbackCall 1 7, ObserveCall 1 7]"
    by simp
  from t have "outside (setValue 7 (sample, fresh)) =
      replay (sample\<lparr>data := 7\<rparr>) (notification_pass (sample\<lparr>data := 7\<rparr>)) (world fresh)"
    by (rule conjunct1)
  then have "replay (sample\<lparr>data := 7\<rparr>) [CallbackCall 0 7, CallbackCall 1 7, ObserveCall 1 7] [] =
     Returns [7, 70, - 7]"
    by (simp only: h p project.simps snd_conv exec.simps)
  with h g p show ?thesis by blast
qed

subsection \<open>Quiet update\<close>

text \<open>
  C3. For every value \<open>v\<close> and every container, \<open>setValueQuietly v\<close> returns with the
  stored value replaced by \<open>v\<close>, so that \<open>Get\<close> then reads \<open>v\<close>. It invokes no callback
  and no observer however many are registered: the history of invocations and the
  outside state are the ones before the call. Both vectors are unchanged.
\<close>

theorem setValueQuietly_silent:
  "setValueQuietly v (s, ex) = Returns (s\<lparr>data := v\<rparr>, ex) \<and>
   Get (s\<lparr>data := v\<rparr>, ex) = Returns (v, (s\<lparr>data := v\<rparr>, ex)) \<and>
   calls (snd (state_of (setValueQuietly v (s, ex)))) = calls ex \<and>
   world (snd (state_of (setValueQuietly v (s, ex)))) = world ex \<and>
   callbacks (fst (state_of (setValueQuietly v (s, ex)))) = callbacks s \<and>
   observers (fst (state_of (setValueQuietly v (s, ex)))) = observers s"
  by simp

subsection \<open>Assignment\<close>

text \<open>
  C4. The assignment operator is not \<open>setValue\<close> on every input. On the sample whose
  second callback throws, \<open>setValue\<close> leaves by the exception, which its caller can
  catch, and the assignment operator, declared \<^verbatim>\<open>noexcept\<close>, ends the program; the same
  holds of the chain \<^verbatim>\<open>(a = 5) = 6\<close> against two calls of \<open>setValue\<close>.
\<close>

theorem operator_assign_unlike_setValue:
  "operator_assign 5 (sample_failing, fresh) \<noteq> setValue 5 (sample_failing, fresh) \<and>
   outside (setValue 5 (sample_failing, fresh)) = Throws (Thrown ''boom'') [5] \<and>
   outside (operator_assign 5 (sample_failing, fresh)) = Terminates [5] \<and>
   outside (then_do (setValue 5 (sample_failing, fresh)) (setValue 6)) = Throws (Thrown ''boom'') [5] \<and>
   outside (then_do (operator_assign 5 (sample_failing, fresh)) (operator_assign 6)) = Terminates [5]"
  by (simp add: operator_assign_def notifyAll_def invoke_def)

subsection \<open>Null observers\<close>

text \<open>
  C5. A container with a null observer at slot \<open>j\<close>, whose callbacks are all callable and
  whose listeners never fail. Then \<open>setValue\<close> returns. The outside state it leaves is
  the one obtained by applying, entry by entry of the history the call has added, the
  listener stored at the slot the entry names to the new value. In that history the null
  slot has no entry, every callback slot has exactly one and every observer slot that is
  not null has exactly one, each with the new value.
\<close>

theorem null_observer_skipped:
  assumes "j < length (observers s)" and "observers s ! j = None"
    and "\<forall>it \<in> set (callbacks s). \<exists>f. it = Some f \<and> (\<forall>d h w. \<exists>w'. f d h w = Returns w')"
    and "\<forall>ob. Some ob \<in> set (observers s) \<longrightarrow> (\<forall>d h w. \<exists>w'. Observe ob d h w = Returns w')"
  shows "\<exists>ex'. setValue v (s, ex) = Returns (s\<lparr>data := v\<rparr>, ex') \<and>
           replay (s\<lparr>data := v\<rparr>) (drop (length (calls ex)) (calls ex')) (world ex) =
             Returns (world ex') \<and>
           filter (is_observer_slot j) (drop (length (calls ex)) (calls ex')) = [] \<and>
           (\<forall>i < length (callbacks s).
              filter (is_callback_slot i) (drop (length (calls ex)) (calls ex')) = [CallbackCall i v]) \<and>
           (\<forall>k < length (observers s). observers s ! k \<noteq> None \<longrightarrow>
              filter (is_observer_slot k) (drop (length (calls ex)) (calls ex')) = [ObserveCall k v])"
proof -
  from setValue_no_fail [OF assms(3,4)] obtain ex' where
    r: "setValue v (s, ex) = Returns (s\<lparr>data := v\<rparr>, ex')" by blast
  from setValue_Returns [OF r] have
    c: "drop (length (calls ex)) (calls ex') = notification_pass (s\<lparr>data := v\<rparr>)" by simp
  from setValue_outside [of v s ex]
  have "replay (s\<lparr>data := v\<rparr>) (notification_pass (s\<lparr>data := v\<rparr>)) (world ex) = Returns (world ex')"
    by (simp only: r project.simps snd_conv)
  then have "replay (s\<lparr>data := v\<rparr>) (drop (length (calls ex)) (calls ex')) (world ex) =
      Returns (world ex')"
    by (simp only: c)
  moreover have "filter (is_observer_slot j) (drop (length (calls ex)) (calls ex')) = []"
    unfolding c using assms(2) by (simp add: observer_slot_once)
  moreover have "\<forall>i < length (callbacks s).
      filter (is_callback_slot i) (drop (length (calls ex)) (calls ex')) = [CallbackCall i v]"
    unfolding c by (simp add: callback_slot_once)
  moreover have "\<forall>k < length (observers s). observers s ! k \<noteq> None \<longrightarrow>
      filter (is_observer_slot k) (drop (length (calls ex)) (calls ex')) = [ObserveCall k v]"
    unfolding c by (simp add: observer_slot_once)
  ultimately show ?thesis using r by blast
qed

text \<open>The sample container has its null observer at slot 0.\<close>

theorem null_observer_skipped_witness:
  "setValue 7 (sample, fresh) =
     Returns (sample\<lparr>data := 7\<rparr>,
       \<lparr>world = [7, 70, - 7], calls = [CallbackCall 0 7, CallbackCall 1 7, ObserveCall 1 7]\<rparr>) \<and>
   (\<exists>ex'. setValue 7 (sample, fresh) = Returns (sample\<lparr>data := 7\<rparr>, ex') \<and>
          replay (sample\<lparr>data := 7\<rparr>) (drop (length (calls fresh)) (calls ex')) (world fresh) =
            Returns (world ex') \<and>
          filter (is_observer_slot 0) (drop (length (calls fresh)) (calls ex')) = [])"
proof -
  have 1: "0 < length (observers sample)" and 2: "observers sample ! 0 = None"
    by simp_all
  have 3: "\<forall>it \<in> set (callbacks sample). \<exists>f. it = Some f \<and> (\<forall>d h w. \<exists>w'. f d h w = Returns w')"
    by simp
  have 4: "\<forall>ob. Some ob \<in> set (observers sample) \<longrightarrow> (\<forall>d h w. \<exists>w'. Observe ob d h w = Returns w')"
    by simp
  have h: "setValue 7 (sample, fresh) =
     Returns (sample\<lparr>data := 7\<rparr>,
       \<lparr>world = [7, 70, - 7], calls = [CallbackCall 0 7, CallbackCall 1 7, ObserveCall 1 7]\<rparr>)"
    by (simp add: notifyAll_def invoke_def)
  from null_observer_skipped [OF 1 2 3 4, of 7 fresh] h show ?thesis by blast
qed

subsection \<open>Clearing the listeners\<close>

text \<open>
  C6. \<open>clearCallbacksAndObservers\<close> returns with both vectors empty and the stored value
  as it was; a second call changes nothing more; a \<open>setValue v\<close> after it returns
  without an invocation (history and outside state as before) and \<open>Get\<close> reads \<open>v\<close>.
\<close>

theorem clearCallbacksAndObservers_clears:
  "clearCallbacksAndObservers (s, ex) = Returns (s\<lparr>callbacks := [], observers := []\<rparr>, ex) \<and>
   data (container_after (clearCallbacksAndObservers (s, ex))) = data s \<and>
   then_do (clearCallbacksAndObservers (s, ex)) clearCallbacksAndObservers =
     clearCallbacksAndObservers (s, ex) \<and>
   then_do (clearCallbacksAndObservers (s, ex)) (setValue v) =
     Returns (s\<lparr>callbacks := [], observers := [], data := v\<rparr>, ex) \<and>
   Get (s\<lparr>callbacks := [], observers := [], data := v\<rparr>, ex) =
     Returns (v, (s\<lparr>callbacks := [], observers := [], data := v\<rparr>, ex))"
  by (simp add: notifyAll_def)

subsection \<open>A listener that throws\<close>

text \<open>
  C7. A listener that throws, in the sample whose second callback fails. \<open>setValue\<close>
  hands the exception to its caller: the first callback has run, the failing one was
  called, the third callback and the observer are not invoked. The assignment operator is
  declared \<^verbatim>\<open>noexcept\<close>: on the same input the exception does not reach its caller,
  the program is terminated.
\<close>

theorem operator_assign_terminates:
  "setValue 5 (sample_failing, fresh) =
     Throws (Thrown ''boom'')
       (sample_failing\<lparr>data := 5\<rparr>, \<lparr>world = [5], calls = [CallbackCall 0 5, CallbackCall 1 5]\<rparr>) \<and>
   operator_assign 5 (sample_failing, fresh) =
     Terminates
       (sample_failing\<lparr>data := 5\<rparr>, \<lparr>world = [5], calls = [CallbackCall 0 5, CallbackCall 1 5]\<rparr>)"
  by (simp add: operator_assign_def notifyAll_def invoke_def)

subsection \<open>Construction\<close>

text \<open>
  C8. The forwarding constructor returns a container whose stored value is \<open>T args\<close>,
  read back by \<open>Get\<close>, with no callback and no observer; it invokes nothing (history and
  outside state as before).
\<close>

theorem LiveData_ctor_initial:
  "LiveData_ctor T args ex = Returns (\<lparr>callbacks = [], observers = [], data = T args\<rparr>, ex) \<and>
   Get (\<lparr>callbacks = [], observers = [], data = T args\<rparr>, ex) =
     Returns (T args, (\<lparr>callbacks = [], observers = [], data = T args\<rparr>, ex)) \<and>
   calls (snd (state_of (LiveData_ctor T args ex))) = calls ex \<and>
   world (snd (state_of (LiveData_ctor T args ex))) = world ex"
  by (simp add: LiveData_ctor_def)

subsection \<open>How the vectors change\<close>

text \<open>
  C9. What each public member function does to the two vectors, however the call ends:
  each \<open>addObserver\<close> appends exactly one entry to its own vector and leaves the other;
  \<open>clearCallbacksAndObservers\<close> empties both; \<open>setValue\<close>, the assignment operator,
  \<open>setValueQuietly\<close>, \<open>Get\<close> and an assignment through the reference \<open>Get\<close> returns
  leave both as they were. No member function removes a single entry.
\<close>

theorem listener_vectors_change:
  "callbacks (container_after (addObserver_callback cb (s, ex))) = callbacks s @ [cb] \<and>
   observers (container_after (addObserver_callback cb (s, ex))) = observers s \<and>
   callbacks (container_after (addObserver_observer ob (s, ex))) = callbacks s \<and>
   observers (container_after (addObserver_observer ob (s, ex))) = observers s @ [ob] \<and>
   callbacks (container_after (clearCallbacksAndObservers (s, ex))) = [] \<and>
   observers (container_after (clearCallbacksAndObservers (s, ex))) = [] \<and>
   callbacks (container_after (setValue v (s, ex))) = callbacks s \<and>
   observers (container_after (setValue v (s, ex))) = observers s \<and>
   callbacks (container_after (operator_assign v (s, ex))) = callbacks s \<and>
   observers (container_after (operator_assign v (s, ex))) = observers s \<and>
   callbacks (container_after (setValueQuietly v (s, ex))) = callbacks s \<and>
   observers (container_after (setValueQuietly v (s, ex))) = observers s \<and>
   Get (s, ex) = Returns (data s, (s, ex)) \<and>
   callbacks (container_after (Get_assign v (s, ex))) = callbacks s \<and>
   observers (container_after (Get_assign v (s, ex))) = observers s"
  by (simp add: setValue_container operator_assign_noexcept state_of_noexcept del: setValue.simps)

subsection \<open>Registration and duplicates\<close>

text \<open>
  C10. Registering invokes nothing and leaves the stored value: \<open>addObserver\<close> returns
  the container with the one entry appended and the execution record unchanged. An
  entry already present is stored again (its count goes up by one), and registering \<open>cb\<close>
  \<open>k\<close> times appends \<open>k\<close> copies. A \<open>setValue\<close> on a container in which the callback
  \<open>f\<close> has been registered \<open>k\<close> more times ends, and leaves the outside state, as this
  does: the callbacks stored before, in order, then \<open>f\<close> applied to the new value exactly
  \<open>k\<close> times in a row, then the observers. When the call returns, the outside state is
  the one obtained by applying, entry by entry of the history added, the callback stored
  at the slot named; read slot by slot these callbacks are the stored sequence itself, so
  \<open>cb\<close> has as many invocations as it is stored, its earlier count plus \<open>k\<close>.
\<close>

theorem duplicate_callbacks:
  "addObserver_callback cb (s, ex) = Returns (s\<lparr>callbacks := callbacks s @ [cb]\<rparr>, ex) \<and>
   count_list (callbacks (container_after (addObserver_callback cb (s, ex)))) cb =
     Suc (count_list (callbacks s) cb) \<and>
   addObserver_observer ob (s, ex) = Returns (s\<lparr>observers := observers s @ [ob]\<rparr>, ex) \<and>
   ((\<lambda>r. then_do r (addObserver_callback cb)) ^^ k) (Returns (s, ex)) =
     Returns (s\<lparr>callbacks := callbacks s @ replicate k cb\<rparr>, ex) \<and>
   outside (setValue v (s\<lparr>callbacks := callbacks s @ replicate k (Some f)\<rparr>, ex)) =
     then_do (then_do (replay (s\<lparr>data := v\<rparr>) (callback_pass (callbacks s) 0 v) (world ex))
                      (\<lambda>w. ((\<lambda>r. then_do r (f v v)) ^^ k) (Returns w)))
             (replay (s\<lparr>data := v\<rparr>) (observer_pass (observers s) 0 v)) \<and>
   (setValue v (s\<lparr>callbacks := callbacks s @ replicate k cb\<rparr>, ex) = Returns (s', ex') \<longrightarrow>
      replay s' (drop (length (calls ex)) (calls ex')) (world ex) = Returns (world ex') \<and>
      map (\<lambda>i. (callbacks s @ replicate k cb) ! i) (callback_slots (drop (length (calls ex)) (calls ex'))) =
        callbacks s @ replicate k cb \<and>
      count_list (map (\<lambda>i. (callbacks s @ replicate k cb) ! i)
          (callback_slots (drop (length (calls ex)) (calls ex')))) cb =
        count_list (callbacks s) cb + k)"
proof -
  have "setValue v (s\<lparr>callbacks := callbacks s @ replicate k cb\<rparr>, ex) = Returns (s', ex') \<longrightarrow>
      replay s' (drop (length (calls ex)) (calls ex')) (world ex) = Returns (world ex') \<and>
      map (\<lambda>i. (callbacks s @ replicate k cb) ! i) (callback_slots (drop (length (calls ex)) (calls ex'))) =
        callbacks s @ replicate k cb \<and>
      count_list (map (\<lambda>i. (callbacks s @ replicate k cb) ! i)
          (callback_slots (drop (length (calls ex)) (calls ex')))) cb =
        count_list (callbacks s) cb + k"
  proof
    let ?sk = "s\<lparr>callbacks := callbacks s @ replicate k cb\<rparr>"
    assume r: "setValue v (?sk, ex) = Returns (s', ex')"
    from setValue_Returns [OF r] have s': "s' = ?sk\<lparr>data := v\<rparr>"
      and c: "drop (length (calls ex)) (calls ex') = notification_pass (?sk\<lparr>data := v\<rparr>)"
      by simp_all
    from setValue_outside [of v ?sk ex]
    have "replay (?sk\<lparr>data := v\<rparr>) (notification_pass (?sk\<lparr>data := v\<rparr>)) (world ex) =
        Returns (world ex')"
      by (simp only: r project.simps snd_conv)
    then have tie: "replay s' (drop (length (calls ex)) (calls ex')) (world ex) = Returns (world ex')"
      by (simp only: c s')
    from c have "callback_slots (drop (length (calls ex)) (calls ex')) =
        [0..<length (callbacks s @ replicate k cb)]"
      by (simp add: callback_slots_notification_pass)
    then have m: "map (\<lambda>i. (callbacks s @ replicate k cb) ! i)
        (callback_slots (drop (length (calls ex)) (calls ex'))) = callbacks s @ replicate k cb"
      by (simp only: map_nth)
    have "count_list (map (\<lambda>i. (callbacks s @ replicate k cb) ! i)
          (callback_slots (drop (length (calls ex)) (calls ex')))) cb =
        count_list (callbacks s) cb + k"
      unfolding m by (simp add: count_list_replicate_same)
    with tie m show "replay s' (drop (length (calls ex)) (calls ex')) (world ex) = Returns (world ex') \<and>
      map (\<lambda>i. (callbacks s @ replicate k cb) ! i) (callback_slots (drop (length (calls ex)) (calls ex'))) =
        callbacks s @ replicate k cb \<and>
      count_list (map (\<lambda>i. (callbacks s @ replicate k cb) ! i)
          (callback_slots (drop (length (calls ex)) (calls ex')))) cb =
        count_list (callbacks s) cb + k"
      by blast
  qed
  moreover have "addObserver_callback cb (s, ex) = Returns (s\<lparr>callbacks := callbacks s @ [cb]\<rparr>, ex)"
    by simp
  moreover have "count_list (callbacks (container_after (addObserver_callback cb (s, ex)))) cb =
      Suc (count_list (callbacks s) cb)"
    by simp
  moreover have "addObserver_observer ob (s, ex) = Returns (s\<lparr>observers := observers s @ [ob]\<rparr>, ex)"
    by simp
  ultimately show ?thesis
    using register_times [of k cb s ex] setValue_registered_outside [of v s k f ex] by blast
qed

text \<open>
  The callback that logs ten times the value, stored once in the sample and registered
  two more times: the log has its entry three times.
\<close>

theorem duplicate_callbacks_witness:
  "setValue 7 (sample\<lparr>callbacks := callbacks sample @ replicate 2 (Some log_tenfold)\<rparr>, fresh) =
     Returns (sample\<lparr>callbacks := callbacks sample @ replicate 2 (Some log_tenfold), data := 7\<rparr>,
       \<lparr>world = [7, 70, 70, 70, - 7],
        calls = [CallbackCall 0 7, CallbackCall 1 7, CallbackCall 2 7, CallbackCall 3 7,
                 ObserveCall 1 7]\<rparr>) \<and>
   then_do (then_do (replay (sample\<lparr>data := 7\<rparr>) (callback_pass (callbacks sample) 0 7) (world fresh))
                    (\<lambda>w. ((\<lambda>r. then_do r (log_tenfold 7 7)) ^^ 2) (Returns w)))
           (replay (sample\<lparr>data := 7\<rparr>) (observer_pass (observers sample) 0 7)) =
     Returns [7, 70, 70, 70, - 7] \<and>
   replay (sample\<lparr>callbacks := callbacks sample @ replicate 2 (Some log_tenfold), data := 7\<rparr>)
     [CallbackCall 0 7, CallbackCall 1 7, CallbackCall 2 7, CallbackCall 3 7, ObserveCall 1 7] [] =
     Returns [7, 70, 70, 70, - 7]"
proof -
  let ?S = "sample\<lparr>callbacks := callbacks sample @ replicate 2 (Some log_tenfold), data := 7\<rparr>"
  let ?E = "\<lparr>world = [7, 70, 70, 70, - 7],
        calls = [CallbackCall 0 7, CallbackCall 1 7, CallbackCall 2 7, CallbackCall 3 7,
                 ObserveCall 1 7]\<rparr> :: (int, int list) exec"
  have h: "setValue 7 (sample\<lparr>callbacks := callbacks sample @ replicate 2 (Some log_tenfold)\<rparr>, fresh) =
     Returns (?S, ?E)"
    by (simp add: notifyAll_def invoke_def numeral_2_eq_2)
  note t = duplicate_callbacks [of "Some log_tenfold" sample fresh _ 2 7 log_tenfold ?S ?E]
  from t have "outside (setValue 7 (sample\<lparr>callbacks := callbacks sample @ replicate 2 (Some log_tenfold)\<rparr>, fresh)) =
     then_do (then_do (replay (sample\<lparr>data := 7\<rparr>) (callback_pass (callbacks sample) 0 7) (world fresh))
                      (\<lambda>w. ((\<lambda>r. then_do r (log_tenfold 7 7)) ^^ 2) (Returns w)))
             (replay (sample\<lparr>data := 7\<rparr>) (observer_pass (observers sample) 0 7))"
    by blast
  then have a: "then_do (then_do (replay (sample\<lparr>data := 7\<rparr>) (callback_pass (callbacks sample) 0 7) (world fresh))
                    (\<lambda>w. ((\<lambda>r. then_do r (log_tenfold 7 7)) ^^ 2) (Returns w)))
           (replay (sample\<lparr>data := 7\<rparr>) (observer_pass (observers sample) 0 7)) =
     Returns [7, 70, 70, 70, - 7]"
    by (simp only: h project.simps snd_conv exec.simps)
  from t h have "replay ?S (drop (length (calls fresh)) (calls ?E)) (world fresh) = Returns (world ?E)"
    by blast
  then have b: "replay ?S
     [CallbackCall 0 7, CallbackCall 1 7, CallbackCall 2 7, CallbackCall 3 7, ObserveCall 1 7] [] =
     Returns [7, 70, 70, 70, - 7]"
    by (simp only: exec.simps list.size drop_0)
  from h a b show ?thesis by blast
qed

end
